theory Spec2Isabelle
  imports Complex_Main "HOL-Library.Word" "HOL-Library.Product_Lexorder"
begin

chapter \<open>The model\<close>

section \<open>Adjacency graph (model/graph/undirected\_graph.hpp)\<close>

text \<open>
  A vertex is an unsigned machine integer; its width is a type parameter, since
  \<^verbatim>\<open>vertex.hpp\<close> is not among the sources. An edge is a \<^verbatim>\<open>std::pair\<close> of vertices,
  ordered lexicographically (first by source, then by target).

  \<^verbatim>\<open>std::set<T>\<close> is modelled by its in-order traversal: a strictly increasing list.
  An iterator is a position in that list; \<^verbatim>\<open>end()\<close> is the length of the list.
\<close>

type_synonym 'a vertex_type = "'a word"
type_synonym 'a edge_type = "'a word \<times> 'a word"

text \<open>\<^verbatim>\<open>std::set::insert\<close>: the element is placed in order, an equivalent one is kept.\<close>

fun set_insert :: "'a::linorder \<Rightarrow> 'a list \<Rightarrow> 'a list" where
  "set_insert x [] = [x]"
| "set_insert x (y # ys) =
     (if x < y then x # y # ys
      else if y < x then y # set_insert x ys
      else y # ys)"

text \<open>\<^verbatim>\<open>std::set::find(x) != end()\<close>.\<close>

definition set_contains :: "'a::linorder \<Rightarrow> 'a list \<Rightarrow> bool" where
  "set_contains x xs = (x \<in> set xs)"

text \<open>\<^verbatim>\<open>std::set::lower_bound\<close>: position of the first element not less than the key.\<close>

definition lower_bound :: "'a::linorder \<Rightarrow> 'a list \<Rightarrow> nat" where
  "lower_bound k xs = length (takeWhile (\<lambda>e. e < k) xs)"

text \<open>\<^verbatim>\<open>std::set::upper_bound\<close>: position of the first element greater than the key.\<close>

definition upper_bound :: "'a::linorder \<Rightarrow> 'a list \<Rightarrow> nat" where
  "upper_bound k xs = length (takeWhile (\<lambda>e. \<not> k < e) xs)"

record (overloaded) 'a UndirectedGraph =
  m_vertices :: "'a word"
  m_edges :: "('a word \<times> 'a word) list"

definition empty_graph :: "'a::len UndirectedGraph" where
  "empty_graph = \<lparr>m_vertices = 0, m_edges = []\<rparr>"

definition reverse :: "'a::len edge_type \<Rightarrow> 'a edge_type" where
  "reverse edge = (snd edge, fst edge)"

definition edge_count :: "'a::len UndirectedGraph \<Rightarrow> nat" where
  "edge_count g = length (m_edges g) div 2"

definition graph_size :: "'a::len UndirectedGraph \<Rightarrow> 'a word \<times> nat" where
  "graph_size g = (m_vertices g, length (m_edges g) div 2)"

definition insert_edge :: "'a::len edge_type \<Rightarrow> 'a UndirectedGraph \<Rightarrow> 'a UndirectedGraph" where
  "insert_edge edge g =
     (let e1 = set_insert edge (m_edges g);
          e2 = set_insert (reverse edge) e1;
          v1 = max (m_vertices g) (fst edge + 1);
          v2 = max v1 (snd edge + 1)
      in \<lparr>m_vertices = v2, m_edges = e2\<rparr>)"

definition contains_edge :: "'a::len edge_type \<Rightarrow> 'a UndirectedGraph \<Rightarrow> bool" where
  "contains_edge edge g = set_contains edge (m_edges g)"

text \<open>
  \<^verbatim>\<open>numeric_limits<vertex_type>::lowest()\<close> is \<open>0\<close> and \<^verbatim>\<open>max()\<close> is \<open>- 1\<close> (all bits set).
\<close>

definition lower_edge_bound :: "'a::len UndirectedGraph \<Rightarrow> 'a word \<Rightarrow> nat" where
  "lower_edge_bound g vertex = lower_bound (vertex, 0) (m_edges g)"

definition upper_edge_bound :: "'a::len UndirectedGraph \<Rightarrow> 'a word \<Rightarrow> nat" where
  "upper_edge_bound g vertex = upper_bound (vertex, - 1) (m_edges g)"

text \<open>
  \<^verbatim>\<open>std::distance(it_l, it_u)\<close> on set iterators is only defined when \<^verbatim>\<open>it_u\<close> is
  reachable from \<^verbatim>\<open>it_l\<close>; the undefined case is \<open>None\<close>.
\<close>

definition degree :: "'a::len UndirectedGraph \<Rightarrow> 'a word \<Rightarrow> nat option" where
  "degree g vertex =
     (let it_l = lower_edge_bound g vertex;
          it_u = upper_edge_bound g vertex
      in if it_l = length (m_edges g) then Some 0
         else if it_l \<le> it_u then Some (it_u - it_l)
         else None)"

text \<open>
  The loop of \<^verbatim>\<open>adjacents\<close>: while \<^verbatim>\<open>it_l != it_u\<close>, push the target of the edge at
  \<^verbatim>\<open>it_l\<close> and advance. Reading or advancing past \<^verbatim>\<open>end()\<close> is undefined: \<open>None\<close>.
\<close>

function adjacents_loop ::
  "'a::len edge_type list \<Rightarrow> nat \<Rightarrow> nat \<Rightarrow> 'a word list \<Rightarrow> 'a word list option" where
  "adjacents_loop es it_l it_u vertices =
     (if it_l \<noteq> it_u then
        (if it_l < length es
         then adjacents_loop es (Suc it_l) it_u (vertices @ [snd (es ! it_l)])
         else None)
      else Some vertices)"
  by pat_completeness auto
termination
  by (relation "measure (\<lambda>(es, it_l, it_u, vertices). length es - it_l)") auto

declare adjacents_loop.simps [simp del]

definition adjacents :: "'a::len UndirectedGraph \<Rightarrow> 'a word \<Rightarrow> 'a word list option" where
  "adjacents g vertex =
     adjacents_loop (m_edges g) (lower_edge_bound g vertex) (upper_edge_bound g vertex) []"

text \<open>The graph obtained from the empty one by a sequence of \<^verbatim>\<open>insert_edge\<close> calls.\<close>

definition build_graph :: "'a::len edge_type list \<Rightarrow> 'a UndirectedGraph" where
  "build_graph es = fold insert_edge es empty_graph"

text \<open>
  The number of distinct unordered pairs \<open>{u, v}\<close> among the inserted edges, as the
  specification counts them.
\<close>

definition unordered_pairs :: "'a::len edge_type list \<Rightarrow> 'a word set set" where
  "unordered_pairs es = (\<lambda>e. {fst e, snd e}) ` set es"

section \<open>Balance calculator (mapmaker/calculator.hpp)\<close>

text \<open>
  \<^verbatim>\<open>double\<close> values are idealised as real numbers; \<^verbatim>\<open>army_type\<close> (declared in
  \<^verbatim>\<open>model/type.hpp\<close>, which is not among the sources) is taken as the mathematical
  integers. An operation whose C++ behaviour is undefined, or whose floating-point
  result is NaN, is \<open>None\<close>.
\<close>

definition TERRITORY_WEIGHT :: real where
  "TERRITORY_WEIGHT = 0.5"

definition OUTER_WEIGHT :: real where
  "OUTER_WEIGHT = 0.5"

text \<open>
  \<^verbatim>\<open>get_score\<close>. Both \<^verbatim>\<open>territories\<close> and \<^verbatim>\<open>m_territories.size()\<close> are \<^verbatim>\<open>size_t\<close>, so
  \<^verbatim>\<open>territories / m_territories.size()\<close> is an integer division (undefined for a zero
  divisor). \<^verbatim>\<open>0.5 * connections / territories\<close> is a floating-point division: for
  \<^verbatim>\<open>territories = 0\<close> it is NaN when \<^verbatim>\<open>connections = 0\<close> and \<open>+\<infinity>\<close> otherwise, which
  \<^verbatim>\<open>std::min\<close> caps at 1.0.
\<close>

definition get_score :: "nat \<Rightarrow> nat \<Rightarrow> nat \<Rightarrow> real option" where
  "get_score m_territories_size territories connections =
     (if m_territories_size = 0 then None
      else if territories = 0 then
        (if connections = 0 then None
         else Some (TERRITORY_WEIGHT * real (territories div m_territories_size)
                    + OUTER_WEIGHT * 1.0))
      else Some (TERRITORY_WEIGHT * real (territories div m_territories_size)
                 + OUTER_WEIGHT * min (0.5 * real connections / real territories) 1.0))"

text \<open>
  Conversion of a \<^verbatim>\<open>double\<close> to an integer type: the fractional part is discarded.
  The widths of \<^verbatim>\<open>int\<close> and \<^verbatim>\<open>army_type\<close> are not modelled; the value is taken to be
  in range.
\<close>

definition double_to_int :: "real \<Rightarrow> int" where
  "double_to_int x = (if 0 \<le> x then \<lfloor>x\<rfloor> else \<lceil>x\<rceil>)"

text \<open>\<^verbatim>\<open>std::round\<close> on a \<^verbatim>\<open>double\<close>: to the nearest integer, halfway cases away from zero.\<close>

definition std_round :: "real \<Rightarrow> real" where
  "std_round x = (if 0 \<le> x then of_int \<lfloor>x + 1 / 2\<rfloor> else of_int \<lceil>x - 1 / 2\<rceil>)"

text \<open>
  \<^verbatim>\<open>std::round<int>\<close>: the explicit template argument selects the overload of
  \<^verbatim>\<open>std::round\<close> for integer arguments, \<^verbatim>\<open>double round(int)\<close>. Its parameter is an
  \<^verbatim>\<open>int\<close>, so a \<^verbatim>\<open>double\<close> argument is converted to \<^verbatim>\<open>int\<close> before the call.
\<close>

definition round_int :: "int \<Rightarrow> real" where
  "round_int num = std_round (of_int num)"

text \<open>\<^verbatim>\<open>std::set_difference\<close> on two sorted ranges.\<close>

fun set_difference :: "'a::linorder list \<Rightarrow> 'a list \<Rightarrow> 'a list" where
  "set_difference [] ys = []"
| "set_difference (x # xs) [] = x # xs"
| "set_difference (x # xs) (y # ys) =
     (if x < y then x # set_difference xs (y # ys)
      else if y < x then set_difference (x # xs) ys
      else set_difference xs ys)"

record (overloaded) 'a Bonus =
  children :: "'a word list"
  armies :: int

record (overloaded) ('a, 't) ArmyCalculator =
  m_territories :: "'t list"
  m_bonuses :: "'a Bonus list"
  m_neighbors :: "'a UndirectedGraph"

text \<open>
  The loop over the children of one bonus: it fills the sets \<^verbatim>\<open>children\<close> and
  \<^verbatim>\<open>adjacents\<close>.
\<close>

fun collect_neighbors ::
  "'a::len UndirectedGraph \<Rightarrow> 'a word list \<Rightarrow> 'a word list \<times> 'a word list
     \<Rightarrow> ('a word list \<times> 'a word list) option" where
  "collect_neighbors g [] (chs, adjs) = Some (chs, adjs)"
| "collect_neighbors g (child # rest) (chs, adjs) =
     (case adjacents g child of
        None \<Rightarrow> None
      | Some neighbors \<Rightarrow>
          collect_neighbors g rest (set_insert child chs, fold set_insert neighbors adjs))"

text \<open>The score of one bonus, as passed to the army assignment.\<close>

definition bonus_score :: "nat \<Rightarrow> 'a::len UndirectedGraph \<Rightarrow> 'a Bonus \<Rightarrow> real option" where
  "bonus_score m_territories_size g bonus =
     (case collect_neighbors g (children bonus) ([], []) of
        None \<Rightarrow> None
      | Some (chs, adjs) \<Rightarrow>
          (let outer_adjacents = set_difference adjs chs
           in get_score m_territories_size (length chs) (length outer_adjacents)))"

text \<open>The body of the loop of \<^verbatim>\<open>calculate_armies\<close> for one bonus.\<close>

definition calculate_bonus ::
  "nat \<Rightarrow> 'a::len UndirectedGraph \<Rightarrow> int \<Rightarrow> int \<Rightarrow> 'a Bonus \<Rightarrow> 'a Bonus option" where
  "calculate_bonus m_territories_size g min_armies max_armies bonus =
     (case bonus_score m_territories_size g bonus of
        None \<Rightarrow> None
      | Some score \<Rightarrow>
          Some (bonus\<lparr>armies :=
            max (double_to_int (round_int (double_to_int (score * of_int max_armies))))
                min_armies\<rparr>))"

text \<open>\<^verbatim>\<open>calculate_armies\<close>: the loop over \<^verbatim>\<open>m_bonuses\<close>, which assigns the armies in place.\<close>

fun calculate_loop ::
  "nat \<Rightarrow> 'a::len UndirectedGraph \<Rightarrow> int \<Rightarrow> int \<Rightarrow> 'a Bonus list \<Rightarrow> 'a Bonus list option" where
  "calculate_loop n g min_armies max_armies [] = Some []"
| "calculate_loop n g min_armies max_armies (bonus # rest) =
     (case calculate_bonus n g min_armies max_armies bonus of
        None \<Rightarrow> None
      | Some bonus' \<Rightarrow>
          (case calculate_loop n g min_armies max_armies rest of
             None \<Rightarrow> None
           | Some rest' \<Rightarrow> Some (bonus' # rest')))"

definition calculate_armies ::
  "int \<Rightarrow> int \<Rightarrow> ('a::len, 't) ArmyCalculator \<Rightarrow> ('a, 't) ArmyCalculator option" where
  "calculate_armies min_armies max_armies c =
     (case calculate_loop (length (m_territories c)) (m_neighbors c) min_armies max_armies
             (m_bonuses c) of
        None \<Rightarrow> None
      | Some bonuses \<Rightarrow> Some (c\<lparr>m_bonuses := bonuses\<rparr>))"

text \<open>
  The score as the specification writes it, over the reals.
\<close>

definition spec_score :: "nat \<Rightarrow> nat \<Rightarrow> nat \<Rightarrow> real" where
  "spec_score total_vertex_count n_children n_outer_adjacents =
     0.5 * (real n_children / real total_vertex_count)
     + 0.5 * min (0.5 * real n_outer_adjacents / real n_children) 1.0"

text \<open>
  The neighbours of a set of vertices, over the inserted edges: the union of the
  adjacents of all children.
\<close>

definition neighbors_of :: "'a::len edge_type list \<Rightarrow> 'a word set \<Rightarrow> 'a word set" where
  "neighbors_of es cs = {w. \<exists>c\<in>cs. (c, w) \<in> set es \<or> (w, c) \<in> set es}"

text \<open>
  The end-to-end scenario of the specification: vertices 0 to 4, six edges, group
  \<open>A = {0, 1}\<close>.
\<close>

definition example_graph :: "32 UndirectedGraph" where
  "example_graph = build_graph [(0, 1), (1, 2), (2, 3), (3, 4), (4, 0), (0, 2)]"

definition group_A :: "32 Bonus" where
  "group_A = \<lparr>children = [0, 1], armies = 0\<rparr>"

text \<open>
  The calculator of the scenario: five territories, the single bonus \<open>A\<close>, and the
  graph above as \<^verbatim>\<open>m_neighbors\<close>. The territories themselves are never read, only
  their number.
\<close>

definition example_calculator :: "(32, unit) ArmyCalculator" where
  "example_calculator =
     \<lparr>m_territories = [(), (), (), (), ()], m_bonuses = [group_A],
      m_neighbors = example_graph\<rparr>"

section \<open>Sweep-line validator (second part of functions/detail/polylabel.hpp)\<close>

text \<open>
  Coordinates (the template parameter \<^verbatim>\<open>T\<close>) and \<^verbatim>\<open>double\<close>/\<^verbatim>\<open>float\<close> values are
  idealised as real numbers. A point is a pair of coordinates, a segment a pair of
  points (\<^verbatim>\<open>first()\<close>, \<^verbatim>\<open>last()\<close>).
\<close>

type_synonym Point = "real \<times> real"
type_synonym Segment = "Point \<times> Point"

abbreviation px :: "Point \<Rightarrow> real" where "px \<equiv> fst"
abbreviation py :: "Point \<Rightarrow> real" where "py \<equiv> snd"

text \<open>
  Modelled from the spec: \<^verbatim>\<open>compare_lt\<close> and \<^verbatim>\<open>compare_gt\<close> of
  \<^verbatim>\<open>functions/detail/compare.hpp\<close>, which is not among the sources. The specification
  describes the point order as a total order, lexicographic by x then y.
\<close>

definition compare_lt :: "Point \<Rightarrow> Point \<Rightarrow> bool" where
  "compare_lt p q = (px p < px q \<or> (px p = px q \<and> py p < py q))"

definition compare_gt :: "Point \<Rightarrow> Point \<Rightarrow> bool" where
  "compare_gt p q = compare_lt q p"

text \<open>The helper \<^verbatim>\<open>distance(p, s1, s2)\<close>, term by term as the source has it.\<close>

definition distance :: "Point \<Rightarrow> Point \<Rightarrow> Point \<Rightarrow> real" where
  "distance p s1 s2 = (px s1 - px p) * (py s2 - py p) - (px s2 - px p) * (px s1 - py p)"

datatype Type = LEFT | RIGHT

record Event =
  ev_edge :: nat
  ev_point :: Point
  ev_type :: Type

record SLSegment =
  edge :: nat
  left :: Point
  right :: Point

text \<open>\<^verbatim>\<open>intersect\<close>. Two points are equal when both coordinates are.\<close>

definition intersect :: "SLSegment \<Rightarrow> SLSegment \<Rightarrow> bool" where
  "intersect s1 s2 =
     (if left s1 = left s2 \<or> right s1 = right s2 \<or> left s1 = right s2 \<or> right s1 = left s2
      then False
      else
        (let l_sign = distance (left s1) (right s1) (left s2);
             r_sign = distance (left s1) (right s1) (right s2)
         in if l_sign * r_sign > 0 then False
            else
              (let l_sign = distance (left s2) (right s2) (left s1);
                   r_sign = distance (left s2) (right s2) (right s1)
               in if l_sign * r_sign > 0 then False else True)))"

text \<open>
  The side of a point relative to a segment as the specification defines it: the
  signed cross product of \<open>a - p\<close> and \<open>b - p\<close>; and the crossing test built on it.
\<close>

definition side :: "Point \<Rightarrow> Point \<Rightarrow> Point \<Rightarrow> real" where
  "side p a b = (px a - px p) * (py b - py p) - (px b - px p) * (py a - py p)"

definition opposite_sides :: "SLSegment \<Rightarrow> SLSegment \<Rightarrow> bool" where
  "opposite_sides s1 s2 =
     (side (left s2) (left s1) (right s1) * side (right s2) (left s1) (right s1) \<le> 0
      \<and> side (left s1) (left s2) (right s2) * side (right s1) (left s2) (right s2) \<le> 0)"

text \<open>\<^verbatim>\<open>SLSegmentComparator\<close>: left points first, then right points.\<close>

definition sl_less :: "SLSegment \<Rightarrow> SLSegment \<Rightarrow> bool" where
  "sl_less s1 s2 =
     (if compare_lt (left s1) (left s2) then True
      else if compare_gt (left s1) (left s2) then False
      else if compare_lt (right s1) (right s2) then True
      else False)"

text \<open>
  \<^verbatim>\<open>std::priority_queue\<close> as the list of its elements in the order they were pushed.
  \<^verbatim>\<open>top()\<close> is an element that the comparator puts below no other one; among several
  such elements the model takes the one pushed first (the standard library does not
  fix that choice).
\<close>

definition pq_top :: "('a \<Rightarrow> 'a \<Rightarrow> bool) \<Rightarrow> 'a list \<Rightarrow> 'a" where
  "pq_top cmp q = fold (\<lambda>c t. if cmp t c then c else t) (tl q) (hd q)"

definition pq_pop :: "('a \<Rightarrow> 'a \<Rightarrow> bool) \<Rightarrow> 'a list \<Rightarrow> 'a list" where
  "pq_pop cmp q = remove1 (pq_top cmp q) q"

definition pq_push :: "'a \<Rightarrow> 'a list \<Rightarrow> 'a list" where
  "pq_push c q = q @ [c]"

text \<open>\<^verbatim>\<open>EventComparator\<close>, and the constructor of \<^verbatim>\<open>EventQueue\<close>.\<close>

definition event_comp :: "Event \<Rightarrow> Event \<Rightarrow> bool" where
  "event_comp e1 e2 = compare_gt (ev_point e1) (ev_point e2)"

fun push_events :: "nat \<Rightarrow> Segment list \<Rightarrow> Event list \<Rightarrow> Event list" where
  "push_events i [] q = q"
| "push_events i (segment # rest) q =
     (let p1 = fst segment; p2 = snd segment;
          lt = compare_lt p1 p2;
          e1 = \<lparr>ev_edge = i, ev_point = p1, ev_type = (if lt then LEFT else RIGHT)\<rparr>;
          e2 = \<lparr>ev_edge = i, ev_point = p2, ev_type = (if lt then RIGHT else LEFT)\<rparr>
      in push_events (Suc i) rest (pq_push e2 (pq_push e1 q)))"

definition EventQueue :: "Segment list \<Rightarrow> Event list" where
  "EventQueue segments = push_events 0 segments []"

text \<open>
  The sweep line: \<^verbatim>\<open>m_segments\<close> is a \<^verbatim>\<open>std::map\<close>, \<^verbatim>\<open>m_tree\<close> a \<^verbatim>\<open>std::set\<close> ordered by
  \<^verbatim>\<open>SLSegmentComparator\<close>, modelled by its in-order traversal. An iterator is a
  position; \<^verbatim>\<open>cend()\<close> is the length.
\<close>

record SweepLine =
  m_segments :: "nat \<rightharpoonup> Segment"
  m_tree :: "SLSegment list"

definition empty_sweep_line :: SweepLine where
  "empty_sweep_line = \<lparr>m_segments = Map.empty, m_tree = []\<rparr>"

datatype sweep_error = OutOfRange | InvalidIterator

definition convert :: "nat \<Rightarrow> Segment \<Rightarrow> SLSegment" where
  "convert index segment =
     (if compare_lt (fst segment) (snd segment)
      then \<lparr>edge = index, left = fst segment, right = snd segment\<rparr>
      else \<lparr>edge = index, left = snd segment, right = fst segment\<rparr>)"

text \<open>
  \<^verbatim>\<open>m_tree.insert(s)\<close>: the new tree and the position of the inserted element, or of the
  equivalent element that was already there.
\<close>

fun tree_insert :: "SLSegment \<Rightarrow> SLSegment list \<Rightarrow> SLSegment list \<times> nat" where
  "tree_insert s [] = ([s], 0)"
| "tree_insert s (t # ts) =
     (if sl_less s t then (s # t # ts, 0)
      else if sl_less t s then (t # fst (tree_insert s ts), Suc (snd (tree_insert s ts)))
      else (t # ts, 0))"

text \<open>\<^verbatim>\<open>m_tree.find(s)\<close>: the position of the equivalent element, or \<^verbatim>\<open>end()\<close>.\<close>

fun tree_find :: "SLSegment \<Rightarrow> SLSegment list \<Rightarrow> nat" where
  "tree_find s [] = 0"
| "tree_find s (t # ts) =
     (if sl_less s t then Suc (length ts)
      else if sl_less t s then Suc (tree_find s ts)
      else 0)"

text \<open>\<^verbatim>\<open>m_tree.erase(s)\<close>: the equivalent element, if there is one, is removed.\<close>

fun tree_erase :: "SLSegment \<Rightarrow> SLSegment list \<Rightarrow> SLSegment list" where
  "tree_erase s [] = []"
| "tree_erase s (t # ts) =
     (if sl_less s t then t # ts
      else if sl_less t s then t # tree_erase s ts
      else ts)"

definition sl_insert :: "nat \<Rightarrow> Segment \<Rightarrow> SweepLine \<Rightarrow> SweepLine \<times> nat" where
  "sl_insert index segment sl =
     (let s = convert index segment;
          r = tree_insert s (m_tree sl)
      in (\<lparr>m_segments = (m_segments sl)(index \<mapsto> segment), m_tree = fst r\<rparr>, snd r))"

text \<open>\<^verbatim>\<open>get\<close>: \<^verbatim>\<open>m_segments.at(index)\<close> throws \<^verbatim>\<open>std::out_of_range\<close> for a missing key.\<close>

definition sl_get :: "nat \<Rightarrow> SweepLine \<Rightarrow> sweep_error + SLSegment" where
  "sl_get index sl =
     (case m_segments sl index of
        None \<Rightarrow> Inl OutOfRange
      | Some s \<Rightarrow> Inr (convert index s))"

definition sl_find :: "nat \<Rightarrow> SweepLine \<Rightarrow> sweep_error + nat" where
  "sl_find index sl =
     (case sl_get index sl of
        Inl err \<Rightarrow> Inl err
      | Inr s \<Rightarrow> Inr (tree_find s (m_tree sl)))"

definition sl_erase :: "nat \<Rightarrow> SweepLine \<Rightarrow> sweep_error + SweepLine" where
  "sl_erase index sl =
     (case sl_get index sl of
        Inl err \<Rightarrow> Inl err
      | Inr s \<Rightarrow>
          Inr \<lparr>m_segments = (m_segments sl)(index := None), m_tree = tree_erase s (m_tree sl)\<rparr>)"

text \<open>
  The events in the order in which the loop of \<^verbatim>\<open>shamos_hoey\<close> takes them from the
  queue (\<^verbatim>\<open>top\<close>, then \<^verbatim>\<open>pop\<close>, until the queue is empty).
\<close>

function pq_drain :: "('a \<Rightarrow> 'a \<Rightarrow> bool) \<Rightarrow> 'a list \<Rightarrow> 'a list" where
  "pq_drain cmp q = (if q = [] then [] else pq_top cmp q # pq_drain cmp (pq_pop cmp q))"
  by pat_completeness auto
termination
proof (relation "measure (\<lambda>(cmp, q). length q)")
  show "wf (measure (\<lambda>(cmp :: 'a \<Rightarrow> 'a \<Rightarrow> bool, q :: 'a list). length q))"
    by simp
next
  fix cmp :: "'a \<Rightarrow> 'a \<Rightarrow> bool" and q :: "'a list"
  assume "q \<noteq> []"
  have "fold (\<lambda>c t. if cmp t c then c else t) xs t \<in> insert t (set xs)" for xs t
    by (induction xs arbitrary: t) auto
  from this [of "tl q" "hd q"] \<open>q \<noteq> []\<close> have "pq_top cmp q \<in> set q"
    by (cases q) (auto simp: pq_top_def)
  then have "length (pq_pop cmp q) < length q"
    using \<open>q \<noteq> []\<close> by (simp add: pq_pop_def length_remove1)
  then show "((cmp, pq_pop cmp q), (cmp, q)) \<in> measure (\<lambda>(cmp, q). length q)"
    by simp
qed

declare pq_drain.simps [simp del]

text \<open>One iteration of the loop of \<^verbatim>\<open>shamos_hoey\<close>: \<open>Inr (Inl b)\<close> is \<^verbatim>\<open>return b\<close>,
  \<open>Inr (Inr sl)\<close> continues with the sweep line \<open>sl\<close>.\<close>

definition sweep_step ::
  "Segment list \<Rightarrow> Event \<Rightarrow> SweepLine \<Rightarrow> sweep_error + (bool + SweepLine)" where
  "sweep_step segments e sl =
     (case ev_type e of
        LEFT \<Rightarrow>
          (if ev_edge e < length segments then
             (let r = sl_insert (ev_edge e) (segments ! ev_edge e) sl;
                  sl' = fst r; it_s = snd r; tree = m_tree sl'
              in if it_s \<noteq> 0 \<and> intersect (tree ! it_s) (tree ! (it_s - 1))
                 then Inr (Inl True)
                 else if Suc it_s \<noteq> length tree \<and> intersect (tree ! it_s) (tree ! Suc it_s)
                 then Inr (Inl True)
                 else Inr (Inr sl'))
           else Inl OutOfRange)
      | RIGHT \<Rightarrow>
          (case sl_find (ev_edge e) sl of
             Inl err \<Rightarrow> Inl err
           | Inr it_s \<Rightarrow>
               (let tree = m_tree sl
                in if it_s \<noteq> 0 \<and> it_s = length tree then Inl InvalidIterator
                   else if it_s \<noteq> 0 \<and> Suc it_s \<noteq> length tree
                           \<and> intersect (tree ! (it_s - 1)) (tree ! Suc it_s)
                   then Inr (Inl True)
                   else (case sl_erase (ev_edge e) sl of
                           Inl err \<Rightarrow> Inl err
                         | Inr sl' \<Rightarrow> Inr (Inr sl')))))"

text \<open>The loop of \<^verbatim>\<open>shamos_hoey\<close> over the events, and the function itself.\<close>

fun sweep_loop :: "Segment list \<Rightarrow> Event list \<Rightarrow> SweepLine \<Rightarrow> sweep_error + bool" where
  "sweep_loop segments [] sl = Inr False"
| "sweep_loop segments (e # events) sl =
     (case sweep_step segments e sl of
        Inl err \<Rightarrow> Inl err
      | Inr (Inl b) \<Rightarrow> Inr b
      | Inr (Inr sl') \<Rightarrow> sweep_loop segments events sl')"

definition shamos_hoey :: "Segment list \<Rightarrow> sweep_error + bool" where
  "shamos_hoey segments =
     sweep_loop segments (pq_drain event_comp (EventQueue segments)) empty_sweep_line"

text \<open>The four segments of a bowtie, and the three edges of a triangle.\<close>

definition bowtie :: "Segment list" where
  "bowtie = [((0, 0), (2, 2)), ((2, 2), (2, 0)), ((2, 0), (0, 2)), ((0, 2), (0, 0))]"

definition triangle :: "Segment list" where
  "triangle = [((0, 0), (4, 0)), ((4, 0), (2, 3)), ((2, 3), (0, 0))]"

text \<open>The normalised forms of the input segments.\<close>

definition converted :: "Segment list \<Rightarrow> SLSegment set" where
  "converted segments = {convert i (segments ! i) | i. i < length segments}"

text \<open>Two segments that cross at \<open>(2, - 2)\<close> and share no endpoint.\<close>

definition crossing_s1 :: SLSegment where
  "crossing_s1 = \<lparr>edge = 0, left = (0, 0), right = (4, - 4)\<rparr>"

definition crossing_s2 :: SLSegment where
  "crossing_s2 = \<lparr>edge = 1, left = (1, - 3), right = (3, - 1)\<rparr>"

section \<open>Label engine (first part of functions/detail/polylabel.hpp)\<close>

text \<open>
  The engine is modelled for the coordinate type \<^verbatim>\<open>double\<close>. Coordinates and \<^verbatim>\<open>double\<close>
  values are real numbers and the arithmetic is exact, except for the additions that
  advance the variables of the covering loops, which are rounded as binary64 rounds
  them. A function that throws or does not return has the value \<open>None\<close>.
\<close>

record Polygon =
  outer :: "Point list"
  inners :: "Point list list"

record Rectangle =
  rect_min :: Point
  rect_max :: Point

definition width :: "Rectangle \<Rightarrow> real" where
  "width r = px (rect_max r) - px (rect_min r)"

definition height :: "Rectangle \<Rightarrow> real" where
  "height r = py (rect_max r) - py (rect_min r)"

text \<open>
  Modelled from the spec: \<^verbatim>\<open>envelope\<close> of \<^verbatim>\<open>functions/envelope.hpp\<close>, which is not among
  the sources. It is the axis-aligned bounding rectangle of the outer ring; a polygon
  without points has none.
\<close>

definition extend_rect :: "Point \<Rightarrow> Rectangle \<Rightarrow> Rectangle" where
  "extend_rect p r =
     \<lparr>rect_min = (min (px p) (px (rect_min r)), min (py p) (py (rect_min r))),
      rect_max = (max (px p) (px (rect_max r)), max (py p) (py (rect_max r)))\<rparr>"

definition envelope :: "Polygon \<Rightarrow> Rectangle option" where
  "envelope polygon =
     (case outer polygon of
        [] \<Rightarrow> None
      | p # ps \<Rightarrow> Some (fold extend_rect ps \<lparr>rect_min = p, rect_max = p\<rparr>))"

text \<open>
  Modelled from the spec: \<^verbatim>\<open>center\<close> of a rectangle (\<^verbatim>\<open>functions/center.hpp\<close>, not among
  the sources), the midpoint of the bounding rectangle.
\<close>

definition rect_center :: "Rectangle \<Rightarrow> Point" where
  "rect_center r =
     ((px (rect_min r) + px (rect_max r)) / 2, (py (rect_min r) + py (rect_max r)) / 2)"

definition SQRT_TWO :: real where
  "SQRT_TWO = sqrt 2"

record Cell =
  cell_center :: Point
  cell_half :: real
  cell_distance :: real
  cell_max :: real

text \<open>
  The constructor of \<^verbatim>\<open>Cell\<close>. \<^verbatim>\<open>distance_to_polygon\<close> is not among the sources; it is the
  parameter \<open>dtp\<close> of the model, and nothing is assumed about it.
\<close>

definition make_cell :: "(Point \<Rightarrow> Polygon \<Rightarrow> real) \<Rightarrow> Point \<Rightarrow> real \<Rightarrow> Polygon \<Rightarrow> Cell" where
  "make_cell dtp center half polygon =
     \<lparr>cell_center = center, cell_half = half,
      cell_distance = dtp center polygon,
      cell_max = dtp center polygon + half * SQRT_TWO\<rparr>"

text \<open>
  The loop of \<^verbatim>\<open>get_centroid\<close>: \<open>i\<close> runs over the ring, \<open>j\<close> is the index before \<open>i\<close>
  (the last index at the start).
\<close>

function centroid_loop :: "Point list \<Rightarrow> nat \<Rightarrow> nat \<Rightarrow> real \<Rightarrow> Point \<Rightarrow> real \<times> Point" where
  "centroid_loop ring i j area center =
     (if i < length ring then
        (let left = ring ! i; right = ring ! j;
             f = px left * py right - px right * py left
         in centroid_loop ring (Suc i) i (area + f * 3)
              (px center + (px left + px right) * f, py center + (py left + py right) * f))
      else (area, center))"
  by pat_completeness auto
termination
  by (relation "measure (\<lambda>(ring, i, j, area, center). length ring - i)") auto

declare centroid_loop.simps [simp del]

text \<open>
  \<^verbatim>\<open>get_centroid\<close>. For an empty ring the loop does not run and
  \<^verbatim>\<open>polygon.outer().at(0)\<close> throws. The default-constructed \<^verbatim>\<open>center\<close> is taken to be
  the origin.
\<close>

definition get_centroid :: "(Point \<Rightarrow> Polygon \<Rightarrow> real) \<Rightarrow> Polygon \<Rightarrow> Cell option" where
  "get_centroid dtp polygon =
     (if outer polygon = [] then None
      else
        (let r = centroid_loop (outer polygon) 0 (length (outer polygon) - 1) 0 (0, 0);
             area = fst r; center = snd r
         in if area > 0
            then Some (make_cell dtp (px center / area, py center / area) 0 polygon)
            else Some (make_cell dtp (outer polygon ! 0) 0 polygon)))"

text \<open>The comparator of the cell queue.\<close>

definition cell_comp :: "Cell \<Rightarrow> Cell \<Rightarrow> bool" where
  "cell_comp a b = (cell_max a < cell_max b)"

text \<open>
  Rounding to \<^verbatim>\<open>double\<close> (IEEE binary64, to nearest, ties to even): a real number is
  rounded to the nearest multiple of the unit in the last place of its binade, which
  is \<open>2\<close> to the power of its exponent minus 52; below the normal range the exponent
  stays at \<open>- 1022\<close>. Values beyond the largest finite \<^verbatim>\<open>double\<close> are not turned into
  infinities; in the loops below such a value ends the loop as an infinity would.
\<close>

definition pow2 :: "int \<Rightarrow> real" where
  "pow2 e = (if 0 \<le> e then 2 ^ nat e else 1 / 2 ^ nat (- e))"

definition double_exponent :: "real \<Rightarrow> int" where
  "double_exponent x = max \<lfloor>log 2 \<bar>x\<bar>\<rfloor> (- 1022)"

definition double_ulp :: "real \<Rightarrow> real" where
  "double_ulp x = pow2 (double_exponent x - 52)"

definition round_half_even :: "real \<Rightarrow> int" where
  "round_half_even r =
     (if r - of_int \<lfloor>r\<rfloor> < 1 / 2 then \<lfloor>r\<rfloor>
      else if 1 / 2 < r - of_int \<lfloor>r\<rfloor> then \<lfloor>r\<rfloor> + 1
      else if even \<lfloor>r\<rfloor> then \<lfloor>r\<rfloor> else \<lfloor>r\<rfloor> + 1)"

definition to_double :: "real \<Rightarrow> real" where
  "to_double x =
     (if x = 0 then 0 else double_ulp x * of_int (round_half_even (x / double_ulp x)))"

text \<open>The sum of two \<^verbatim>\<open>double\<close> values, as \<^verbatim>\<open>x += cell_size\<close> computes it.\<close>

definition double_add :: "real \<Rightarrow> real \<Rightarrow> real" where
  "double_add x y = to_double (x + y)"

text \<open>
  The two loops that cover the envelope with the initial cells. They run while
  \<^verbatim>\<open>y < max.y\<close> (\<^verbatim>\<open>x < max.x\<close>) and add \<^verbatim>\<open>cell_size\<close> in every round. Whether a loop
  ends depends on whether that addition moves the loop variable, so the addition is the
  rounded one; a loop that does not end has the value \<open>None\<close>.
\<close>

partial_function (option) cover_y ::
  "(Point \<Rightarrow> Polygon \<Rightarrow> real) \<Rightarrow> Polygon \<Rightarrow> Rectangle \<Rightarrow> real \<Rightarrow> real \<Rightarrow> real \<Rightarrow> real
     \<Rightarrow> Cell list \<Rightarrow> Cell list option" where
  "cover_y dtp polygon polygon_envelope cell_size half x y queue =
     (if y < py (rect_max polygon_envelope)
      then cover_y dtp polygon polygon_envelope cell_size half x (double_add y cell_size)
             (pq_push (make_cell dtp (x + half, y + half) half polygon) queue)
      else Some queue)"

partial_function (option) cover_x ::
  "(Point \<Rightarrow> Polygon \<Rightarrow> real) \<Rightarrow> Polygon \<Rightarrow> Rectangle \<Rightarrow> real \<Rightarrow> real \<Rightarrow> real
     \<Rightarrow> Cell list \<Rightarrow> Cell list option" where
  "cover_x dtp polygon polygon_envelope cell_size half x queue =
     (if x < px (rect_max polygon_envelope)
      then Option.bind
             (cover_y dtp polygon polygon_envelope cell_size half x
                (py (rect_min polygon_envelope)) queue)
             (cover_x dtp polygon polygon_envelope cell_size half (double_add x cell_size))
      else Some queue)"

text \<open>The search loop: \<^verbatim>\<open>while (!queue.empty())\<close>.\<close>

partial_function (option) search ::
  "(Point \<Rightarrow> Polygon \<Rightarrow> real) \<Rightarrow> Polygon \<Rightarrow> real \<Rightarrow> Cell list \<Rightarrow> Cell \<Rightarrow> Cell option" where
  "search dtp polygon precision queue best_cell =
     (if queue = [] then Some best_cell
      else
        (let cell = pq_top cell_comp queue;
             queue1 = pq_pop cell_comp queue;
             best_cell1 = (if cell_distance cell > cell_distance best_cell
                           then cell else best_cell)
         in if cell_max cell - cell_distance best_cell1 \<le> precision
            then search dtp polygon precision queue1 best_cell1
            else
              (let half = cell_half cell / 2;
                   cx = px (cell_center cell); cy = py (cell_center cell);
                   queue2 = pq_push (make_cell dtp (cx + half, cy + half) half polygon) queue1;
                   queue3 = pq_push (make_cell dtp (cx + half, cy - half) half polygon) queue2;
                   queue4 = pq_push (make_cell dtp (cx - half, cy + half) half polygon) queue3;
                   queue5 = pq_push (make_cell dtp (cx - half, cy - half) half polygon) queue4
               in search dtp polygon precision queue5 best_cell1)))"

text \<open>\<^verbatim>\<open>polylabel\<close>: the result is the centre and the distance of the best cell.\<close>

definition polylabel ::
  "(Point \<Rightarrow> Polygon \<Rightarrow> real) \<Rightarrow> Polygon \<Rightarrow> real \<Rightarrow> (Point \<times> real) option" where
  "polylabel dtp polygon precision =
     (case envelope polygon of
        None \<Rightarrow> None
      | Some polygon_envelope \<Rightarrow>
          (let cell_size = min (width polygon_envelope) (height polygon_envelope)
           in if cell_size = 0 then Some (rect_min polygon_envelope, 0)
              else
                (let half = cell_size / 2
                 in case cover_x dtp polygon polygon_envelope cell_size half
                           (px (rect_min polygon_envelope)) [] of
                      None \<Rightarrow> None
                    | Some queue \<Rightarrow>
                        (case get_centroid dtp polygon of
                           None \<Rightarrow> None
                         | Some centroid_cell \<Rightarrow>
                             (let envelope_center_cell =
                                    make_cell dtp (rect_center polygon_envelope) 0 polygon;
                                  best_cell =
                                    (if cell_distance envelope_center_cell
                                          > cell_distance centroid_cell
                                     then envelope_center_cell else centroid_cell)
                              in case search dtp polygon precision queue best_cell of
                                   None \<Rightarrow> None
                                 | Some best \<Rightarrow>
                                     Some (cell_center best, cell_distance best))))))"








text \<open>
  A degenerate polygon of four points, a square of side 2, and a rectangle of width 4
  and height 1 far from the origin, where neighbouring \<^verbatim>\<open>double\<close> values are 2 apart.
  All coordinates are \<^verbatim>\<open>double\<close> values.
\<close>

definition flat_polygon :: Polygon where
  "flat_polygon = \<lparr>outer = [(0, 0), (0, 1), (0, 2), (0, 0)], inners = []\<rparr>"




chapter \<open>Properties\<close>

section \<open>Adjacency graph: properties\<close>

subsection \<open>The edge set after a sequence of insertions\<close>

lemma set_set_insert: "set (set_insert x xs) = insert x (set xs)"
  by (induction xs) auto

lemma sorted_set_insert:
  "sorted_wrt (<) xs \<Longrightarrow> sorted_wrt (<) (set_insert x xs)"
  by (induction xs) (auto simp: set_set_insert)

lemma fold_insert_edge_sorted:
  "sorted_wrt (<) (m_edges g) \<Longrightarrow> sorted_wrt (<) (m_edges (fold insert_edge es g))"
  by (induction es arbitrary: g) (simp_all add: insert_edge_def Let_def sorted_set_insert)

lemma fold_insert_edge_set:
  "set (m_edges (fold insert_edge es g)) = set (m_edges g) \<union> set es \<union> reverse ` set es"
  by (induction es arbitrary: g) (auto simp: insert_edge_def Let_def set_set_insert)

lemma build_graph_sorted: "sorted_wrt (<) (m_edges (build_graph es))"
  unfolding build_graph_def by (rule fold_insert_edge_sorted) (simp add: empty_graph_def)

lemma build_graph_set: "set (m_edges (build_graph es)) = set es \<union> reverse ` set es"
  unfolding build_graph_def by (simp add: fold_insert_edge_set empty_graph_def)

lemma edge_before_low: "(e :: 'a::len edge_type) < (v, 0) \<longleftrightarrow> fst e < v"
  by (cases e) (auto simp: less_prod_def)

lemma edge_after_high: "(v, - 1) < (e :: 'a::len edge_type) \<longleftrightarrow> v < fst e"
  by (cases e) (auto simp: less_prod_def)

lemma edge_range:
  fixes xs :: "'a::len edge_type list"
  assumes "sorted_wrt (<) xs"
  shows "lower_bound (v, 0) xs \<le> upper_bound (v, - 1) xs
       \<and> upper_bound (v, - 1) xs \<le> length xs
       \<and> take (upper_bound (v, - 1) xs - lower_bound (v, 0) xs) (drop (lower_bound (v, 0) xs) xs)
           = filter (\<lambda>e. fst e = v) xs"
  using assms
proof (induction xs)
  case Nil
  then show ?case by (simp add: lower_bound_def upper_bound_def)
next
  case (Cons x xs)
  have later: "\<forall>y\<in>set xs. fst x \<le> fst y"
    using Cons.prems by (auto simp: less_prod_def)
  have "sorted_wrt (<) xs" using Cons.prems by simp
  note IH = Cons.IH [OF this, unfolded lower_bound_def upper_bound_def edge_before_low edge_after_high]
  consider "fst x < v" | "fst x = v" | "v < fst x" by (meson linorder_cases)
  then show ?case
  proof cases
    case 1
    then have "\<not> v < fst x" "fst x \<noteq> v" by auto
    with 1 IH show ?thesis
      unfolding lower_bound_def upper_bound_def edge_before_low edge_after_high by simp
  next
    case 2
    have "takeWhile (\<lambda>e. fst e < v) xs = []"
      using later 2 by (cases xs) auto
    with 2 IH show ?thesis
      unfolding lower_bound_def upper_bound_def edge_before_low edge_after_high by simp
  next
    case 3
    then have n: "\<not> fst x < v" "fst x \<noteq> v" by auto
    have "filter (\<lambda>e. fst e = v) xs = []"
      using later 3 by (auto simp: filter_empty_conv)
    with n 3 show ?thesis
      unfolding lower_bound_def upper_bound_def edge_before_low edge_after_high by simp
  qed
qed

lemma adjacents_loop_slice:
  "it_l \<le> it_u \<Longrightarrow> it_u \<le> length es \<Longrightarrow>
   adjacents_loop es it_l it_u acc = Some (acc @ map snd (take (it_u - it_l) (drop it_l es)))"
proof (induction es it_l it_u acc rule: adjacents_loop.induct)
  case (1 es it_l it_u vertices)
  show ?case
  proof (cases "it_l = it_u")
    case True
    then show ?thesis by (simp add: adjacents_loop.simps [of es it_u])
  next
    case False
    with 1 have lt: "it_l < it_u" "it_l < length es" by auto
    then have "take (it_u - it_l) (drop it_l es) = es ! it_l # take (it_u - Suc it_l) (drop (Suc it_l) es)"
      by (metis Cons_nth_drop_Suc Suc_diff_Suc take_Suc_Cons)
    with 1 lt False show ?thesis
      by (simp add: adjacents_loop.simps [of es it_l])
  qed
qed

lemma adjacents_sorted_edges:
  assumes "sorted_wrt (<) (m_edges g)"
  shows "adjacents g v = Some (map snd (filter (\<lambda>e. fst e = v) (m_edges g)))"
  using edge_range [OF assms, of v]
  by (simp add: adjacents_def lower_edge_bound_def upper_edge_bound_def adjacents_loop_slice)

lemma degree_sorted_edges:
  assumes "sorted_wrt (<) (m_edges g)"
  shows "degree g v = Some (length (filter (\<lambda>e. fst e = v) (m_edges g)))"
proof -
  note r = edge_range [OF assms, of v]
  let ?il = "lower_bound (v, 0) (m_edges g)" and ?iu = "upper_bound (v, - 1) (m_edges g)"
  have len: "length (filter (\<lambda>e. fst e = v) (m_edges g)) = ?iu - ?il"
    using r by (metis (no_types, lifting) diff_le_mono length_drop length_take min.absorb2)
  show ?thesis
  proof (cases "?il = length (m_edges g)")
    case True
    then have "?iu - ?il = 0" using r by simp
    with True len show ?thesis
      by (simp add: degree_def lower_edge_bound_def upper_edge_bound_def)
  next
    case False
    with r len show ?thesis
      by (simp add: degree_def lower_edge_bound_def upper_edge_bound_def Let_def)
  qed
qed

lemma strict_targets:
  fixes xs :: "'a::len edge_type list"
  shows "sorted_wrt (<) xs \<Longrightarrow> sorted_wrt (<) (map snd (filter (\<lambda>e. fst e = v) xs))"
  by (induction xs) (auto simp: less_prod_def)

lemma in_reverse_image: "(a, b) \<in> reverse ` S \<longleftrightarrow> (b, a) \<in> S"
  by (force simp: reverse_def image_iff)

lemma up_in_unordered_pairs:
  "(a, b) \<in> set es \<Longrightarrow> {a, b} \<in> unordered_pairs es"
  "(a, b) \<in> set es \<Longrightarrow> {b, a} \<in> unordered_pairs es"
  by (force simp: unordered_pairs_def insert_commute)+

lemma length_build_graph:
  "length (m_edges (build_graph es)) = card (set es \<union> reverse ` set es)"
proof -
  have "distinct (m_edges (build_graph es))"
    using build_graph_sorted [of es] by (simp add: strict_sorted_iff)
  then show ?thesis
    by (metis build_graph_set distinct_card)
qed

lemma card_loops:
  assumes "\<forall>e\<in>set es. fst e = snd e"
  shows "card (unordered_pairs es) = card (set es)"
proof -
  have "inj_on (\<lambda>e. {fst e, snd e}) (set es)"
    using assms by (auto simp: inj_on_def prod_eq_iff)
  then show ?thesis unfolding unordered_pairs_def by (rule card_image)
qed

lemma card_nonloops:
  fixes es :: "'a::len edge_type list"
  assumes nl: "\<forall>e\<in>set es. fst e \<noteq> snd e"
  shows "card (set es \<union> reverse ` set es) = 2 * card (unordered_pairs es)"
proof -
  let ?S = "set es \<union> reverse ` set es"
  let ?up = "\<lambda>e::'a edge_type. {fst e, snd e}"
  define L where "L = {e \<in> ?S. fst e < snd e}"
  define R where "R = {e \<in> ?S. snd e < fst e}"
  have S: "?S = L \<union> R" "L \<inter> R = {}"
    using nl by (auto simp: L_def R_def reverse_def)
  have fin: "finite L" "finite R" by (simp_all add: L_def R_def)
  have injL: "inj_on ?up L"
    by (auto simp: inj_on_def L_def doubleton_eq_iff prod_eq_iff)
  have injR: "inj_on ?up R"
    by (auto simp: inj_on_def R_def doubleton_eq_iff prod_eq_iff)
  have imgL: "?up ` L = unordered_pairs es"
  proof
    show "?up ` L \<subseteq> unordered_pairs es"
      by (auto simp: L_def reverse_def up_in_unordered_pairs)
    show "unordered_pairs es \<subseteq> ?up ` L"
    proof
      fix p assume "p \<in> unordered_pairs es"
      then obtain e where e: "e \<in> set es" "p = ?up e" by (auto simp: unordered_pairs_def)
      with nl consider "fst e < snd e" | "snd e < fst e" by (meson linorder_neqE)
      then show "p \<in> ?up ` L"
      proof cases
        case 1
        with e have "e \<in> L" by (simp add: L_def)
        with e show ?thesis by blast
      next
        case 2
        with e have "reverse e \<in> L" by (simp add: L_def reverse_def)
        moreover have "?up (reverse e) = p" using e by (simp add: reverse_def insert_commute)
        ultimately show ?thesis by (metis (no_types, lifting) image_eqI)
      qed
    qed
  qed
  have imgR: "?up ` R = unordered_pairs es"
  proof
    show "?up ` R \<subseteq> unordered_pairs es"
      by (auto simp: R_def reverse_def up_in_unordered_pairs)
    show "unordered_pairs es \<subseteq> ?up ` R"
    proof
      fix p assume "p \<in> unordered_pairs es"
      then obtain e where e: "e \<in> set es" "p = ?up e" by (auto simp: unordered_pairs_def)
      with nl consider "fst e < snd e" | "snd e < fst e" by (meson linorder_neqE)
      then show "p \<in> ?up ` R"
      proof cases
        case 2
        with e have "e \<in> R" by (simp add: R_def)
        with e show ?thesis by blast
      next
        case 1
        with e have "reverse e \<in> R" by (simp add: R_def reverse_def)
        moreover have "?up (reverse e) = p" using e by (simp add: reverse_def insert_commute)
        ultimately show ?thesis by (metis (no_types, lifting) image_eqI)
      qed
    qed
  qed
  have "card ?S = card L + card R"
    using S fin by (simp add: card_Un_disjoint)
  also have "card L = card (unordered_pairs es)"
    using card_image [OF injL] imgL by simp
  also have "card R = card (unordered_pairs es)"
    using card_image [OF injR] imgR by simp
  finally show ?thesis by simp
qed

lemma edge_count_build_graph:
  fixes es :: "'a::len edge_type list"
  shows "edge_count (build_graph es) =
     card (unordered_pairs (filter (\<lambda>e. fst e \<noteq> snd e) es))
     + card (unordered_pairs (filter (\<lambda>e. fst e = snd e) es)) div 2"
proof -
  let ?A = "filter (\<lambda>e. fst e \<noteq> snd e) es" and ?B = "filter (\<lambda>e. fst e = snd e) es"
  have split: "set es \<union> reverse ` set es = (set ?A \<union> reverse ` set ?A) \<union> set ?B"
    by (auto simp: reverse_def image_iff prod_eq_iff)
  have disj: "(set ?A \<union> reverse ` set ?A) \<inter> set ?B = {}"
    by (auto simp: reverse_def)
  have "card (set es \<union> reverse ` set es) = card (set ?A \<union> reverse ` set ?A) + card (set ?B)"
    unfolding split using disj by (simp add: card_Un_disjoint)
  also have "card (set ?A \<union> reverse ` set ?A) = 2 * card (unordered_pairs ?A)"
    by (rule card_nonloops) simp
  also have "card (set ?B) = card (unordered_pairs ?B)"
    by (rule card_loops [symmetric]) simp
  finally show ?thesis
    by (simp add: edge_count_def length_build_graph)
qed

lemma adjacents_build_graph:
  "adjacents (build_graph es) v
     = Some (map snd (filter (\<lambda>e. fst e = v) (m_edges (build_graph es))))"
  by (rule adjacents_sorted_edges) (rule build_graph_sorted)

lemma neighbour_build_graph:
  "w \<in> set (map snd (filter (\<lambda>e. fst e = v) (m_edges (build_graph es))))
     \<longleftrightarrow> (v, w) \<in> set es \<or> (w, v) \<in> set es"
proof -
  have "w \<in> set (map snd (filter (\<lambda>e. fst e = v) (m_edges (build_graph es))))
     \<longleftrightarrow> (v, w) \<in> set (m_edges (build_graph es))"
    by (force simp: image_iff)
  then show ?thesis
    by (simp add: build_graph_set in_reverse_image)
qed

subsection \<open>Claims about the graph\<close>

text \<open>
  Claim C3, as stated, fails: it counts a self-loop \<open>(u, u)\<close> as one edge, but the set
  stores it once and \<^verbatim>\<open>edge_count\<close> halves the stored size, so a single self-loop
  gives \<open>edge_count = 0\<close>.
\<close>

theorem edge_count_self_loop:
  "edge_count (build_graph [(0::32 word, 0)]) \<noteq> card (unordered_pairs [(0::32 word, 0)])"
  by (simp add: build_graph_def insert_edge_def empty_graph_def reverse_def edge_count_def
      unordered_pairs_def)

text \<open>
  Claim C3 (amended). After any sequence of \<^verbatim>\<open>insert_edge\<close> calls: every inserted edge
  is contained in both directions; \<^verbatim>\<open>edge_count\<close> is the number of distinct unordered
  pairs with two different endpoints plus half (rounded down) the number of distinct
  self-loops, hence the number of distinct unordered pairs when no self-loop was
  inserted; and adjacency is symmetric: \<open>v\<close> is listed by \<^verbatim>\<open>adjacents(u)\<close> iff \<open>u\<close> is
  listed by \<^verbatim>\<open>adjacents(v)\<close>.
\<close>

theorem graph_invariants:
  fixes es :: "'a::len edge_type list"
  shows "(\<forall>e\<in>set es. contains_edge (fst e, snd e) (build_graph es)
                    \<and> contains_edge (snd e, fst e) (build_graph es))
       \<and> edge_count (build_graph es) =
           card (unordered_pairs (filter (\<lambda>e. fst e \<noteq> snd e) es))
           + card (unordered_pairs (filter (\<lambda>e. fst e = snd e) es)) div 2
       \<and> ((\<forall>e\<in>set es. fst e \<noteq> snd e) \<longrightarrow>
            edge_count (build_graph es) = card (unordered_pairs es))
       \<and> (\<forall>u v. \<exists>nu nv. adjacents (build_graph es) u = Some nu
                       \<and> adjacents (build_graph es) v = Some nv
                       \<and> (v \<in> set nu \<longleftrightarrow> u \<in> set nv))"
proof (intro conjI)
  show "\<forall>e\<in>set es. contains_edge (fst e, snd e) (build_graph es)
                    \<and> contains_edge (snd e, fst e) (build_graph es)"
    by (auto simp: contains_edge_def set_contains_def build_graph_set reverse_def image_iff)
  show "edge_count (build_graph es) =
           card (unordered_pairs (filter (\<lambda>e. fst e \<noteq> snd e) es))
           + card (unordered_pairs (filter (\<lambda>e. fst e = snd e) es)) div 2"
    by (rule edge_count_build_graph)
  show "(\<forall>e\<in>set es. fst e \<noteq> snd e) \<longrightarrow>
            edge_count (build_graph es) = card (unordered_pairs es)"
  proof
    assume nl: "\<forall>e\<in>set es. fst e \<noteq> snd e"
    then have "filter (\<lambda>e. fst e \<noteq> snd e) es = es" "filter (\<lambda>e. fst e = snd e) es = []"
      by (simp_all add: filter_empty_conv)
    then show "edge_count (build_graph es) = card (unordered_pairs es)"
      by (simp add: edge_count_build_graph unordered_pairs_def)
  qed
  show "\<forall>u v. \<exists>nu nv. adjacents (build_graph es) u = Some nu
                       \<and> adjacents (build_graph es) v = Some nv
                       \<and> (v \<in> set nu \<longleftrightarrow> u \<in> set nv)"
    unfolding adjacents_build_graph neighbour_build_graph
    by (intro allI exI conjI refl) (auto simp only: neighbour_build_graph)
qed

theorem graph_invariants_witness:
  "contains_edge (1, 2) (build_graph [(1::32 word, 2)])
   \<and> contains_edge (2, 1) (build_graph [(1::32 word, 2)])
   \<and> edge_count (build_graph [(1::32 word, 2)]) = card (unordered_pairs [(1::32 word, 2)])"
  using graph_invariants [of "[(1::32 word, 2)]"] by simp

text \<open>
  Claim C8. For a vertex that is not an endpoint of any stored edge, \<^verbatim>\<open>degree\<close> returns
  0 and \<^verbatim>\<open>adjacents\<close> returns the empty sequence; both return normally.
\<close>

theorem degree_adjacents_absent_vertex:
  fixes es :: "'a::len edge_type list"
  assumes "\<forall>e\<in>set (m_edges (build_graph es)). fst e \<noteq> v \<and> snd e \<noteq> v"
  shows "degree (build_graph es) v = Some 0 \<and> adjacents (build_graph es) v = Some []"
proof -
  have "filter (\<lambda>e. fst e = v) (m_edges (build_graph es)) = []"
    using assms by (auto simp: filter_empty_conv)
  then show ?thesis
    by (simp add: adjacents_build_graph degree_sorted_edges [OF build_graph_sorted])
qed

theorem degree_adjacents_absent_vertex_witness:
  "degree (build_graph [(1::32 word, 2)]) 5 = Some 0
   \<and> adjacents (build_graph [(1::32 word, 2)]) 5 = Some []"
  using degree_adjacents_absent_vertex [of "[(1::32 word, 2)]" 5]
  by (simp add: build_graph_def insert_edge_def empty_graph_def reverse_def)

text \<open>
  Claim C10. \<^verbatim>\<open>adjacents(v)\<close> returns normally, and the returned sequence is strictly
  increasing, has no duplicates, and holds exactly the neighbours of \<open>v\<close>.
\<close>

theorem adjacents_strictly_increasing:
  fixes es :: "'a::len edge_type list"
  shows "\<exists>ns. adjacents (build_graph es) v = Some ns
            \<and> sorted_wrt (<) ns \<and> distinct ns
            \<and> set ns = {w. (v, w) \<in> set es \<or> (w, v) \<in> set es}"
proof -
  let ?ns = "map snd (filter (\<lambda>e. fst e = v) (m_edges (build_graph es)))"
  have s: "sorted_wrt (<) ?ns"
    by (rule strict_targets) (rule build_graph_sorted)
  then have "distinct ?ns" by (simp add: strict_sorted_iff)
  moreover have "set ?ns = {w. (v, w) \<in> set es \<or> (w, v) \<in> set es}"
    using neighbour_build_graph [of _ v es] by blast
  ultimately show ?thesis using s adjacents_build_graph by blast
qed

section \<open>Balance calculator: properties\<close>

subsection \<open>Sets as sorted lists; the score of a bonus\<close>

lemma fold_set_insert_set: "set (fold set_insert xs ys) = set xs \<union> set ys"
  by (induction xs arbitrary: ys) (auto simp: set_set_insert)

lemma fold_set_insert_sorted:
  "sorted_wrt (<) ys \<Longrightarrow> sorted_wrt (<) (fold set_insert xs ys)"
  by (induction xs arbitrary: ys) (simp_all add: sorted_set_insert)

lemma set_difference_subset: "set (set_difference xs ys) \<subseteq> set xs"
  by (induction xs ys rule: set_difference.induct) auto

lemma set_difference_set:
  "sorted_wrt (<) xs \<Longrightarrow> sorted_wrt (<) ys \<Longrightarrow> set (set_difference xs ys) = set xs - set ys"
proof (induction xs ys rule: set_difference.induct)
  case (3 x xs y ys)
  note IH = "3.IH" and prems = "3.prems"
  have sx: "sorted_wrt (<) xs" and sy: "sorted_wrt (<) ys" using prems by simp_all
  have bdx: "\<forall>a\<in>set xs. x < a" and bdy: "\<forall>a\<in>set ys. y < a" using prems by simp_all
  consider (lt) "x < y" | (gt) "y < x" | (eq) "x = y" by (meson linorder_cases)
  then show ?case
  proof cases
    case lt
    then have "x \<notin> set (y # ys)" using bdy by auto
    moreover have "set (set_difference xs (y # ys)) = set xs - set (y # ys)"
      using IH(1) [OF lt sx prems(2)] .
    ultimately show ?thesis using lt by auto
  next
    case gt
    then have ng: "\<not> x < y" by simp
    have "y \<notin> set (x # xs)" using gt bdx by auto
    moreover have "set (set_difference (x # xs) ys) = set (x # xs) - set ys"
      using IH(2) [OF ng gt prems(1) sy] .
    ultimately show ?thesis using gt ng by auto
  next
    case eq
    then have n: "\<not> x < y" "\<not> y < x" by simp_all
    have "x \<notin> set xs" "y \<notin> set ys" using bdx bdy by auto
    moreover have "set (set_difference xs ys) = set xs - set ys"
      using IH(3) [OF n sx sy] .
    ultimately show ?thesis using eq by auto
  qed
qed simp_all

lemma set_difference_sorted:
  "sorted_wrt (<) xs \<Longrightarrow> sorted_wrt (<) (set_difference xs ys)"
proof (induction xs ys rule: set_difference.induct)
  case (3 x xs y ys)
  have "\<forall>a\<in>set (set_difference xs (y # ys)). x < a"
    using "3.prems" set_difference_subset [of xs "y # ys"] by auto
  with 3 show ?case by auto
qed simp_all


lemma collect_neighbors_build_graph:
  assumes "sorted_wrt (<) chs" "sorted_wrt (<) adjs"
  shows "\<exists>chs' adjs'. collect_neighbors (build_graph es) cs (chs, adjs) = Some (chs', adjs')
          \<and> sorted_wrt (<) chs' \<and> set chs' = set chs \<union> set cs
          \<and> sorted_wrt (<) adjs' \<and> set adjs' = set adjs \<union> neighbors_of es (set cs)"
  using assms
proof (induction cs arbitrary: chs adjs)
  case Nil
  then show ?case by (simp add: neighbors_of_def)
next
  case (Cons c cs)
  let ?ns = "map snd (filter (\<lambda>e. fst e = c) (m_edges (build_graph es)))"
  have ns: "set ?ns = neighbors_of es {c}"
    using neighbour_build_graph [of _ c es] unfolding neighbors_of_def by blast
  have s1: "sorted_wrt (<) (set_insert c chs)"
    using Cons.prems by (simp add: sorted_set_insert)
  have s2: "sorted_wrt (<) (fold set_insert ?ns adjs)"
    using Cons.prems by (simp add: fold_set_insert_sorted)
  from Cons.IH [OF s1 s2] obtain chs' adjs' where
    r: "collect_neighbors (build_graph es) cs (set_insert c chs, fold set_insert ?ns adjs)
          = Some (chs', adjs')"
       "sorted_wrt (<) chs'" "set chs' = set (set_insert c chs) \<union> set cs"
       "sorted_wrt (<) adjs'"
       "set adjs' = set (fold set_insert ?ns adjs) \<union> neighbors_of es (set cs)"
    by blast
  have "neighbors_of es (set (c # cs)) = neighbors_of es {c} \<union> neighbors_of es (set cs)"
    by (auto simp: neighbors_of_def)
  with r ns show ?case
    by (auto simp: adjacents_build_graph set_set_insert fold_set_insert_set)
qed

lemma length_strict_sorted: "sorted_wrt (<) (xs :: 'a::linorder list) \<Longrightarrow> length xs = card (set xs)"
  by (simp add: strict_sorted_iff distinct_card)

lemma bonus_score_build_graph:
  "bonus_score n (build_graph es) b =
     get_score n (card (set (children b)))
       (card (neighbors_of es (set (children b)) - set (children b)))"
proof -
  obtain chs adjs where
    r: "collect_neighbors (build_graph es) (children b) ([], []) = Some (chs, adjs)"
       "sorted_wrt (<) chs" "set chs = set (children b)"
       "sorted_wrt (<) adjs" "set adjs = neighbors_of es (set (children b))"
    using collect_neighbors_build_graph [of "[]" "[]" es "children b"] by auto
  have "length chs = card (set (children b))"
    using r by (simp add: length_strict_sorted)
  moreover have "length (set_difference adjs chs)
      = card (neighbors_of es (set (children b)) - set (children b))"
    using r by (simp add: length_strict_sorted set_difference_sorted set_difference_set)
  ultimately show ?thesis
    using r by (simp add: bonus_score_def)
qed

lemma get_score_range:
  assumes "1 \<le> c" "c \<le> n"
  shows "\<exists>s. get_score n c k = Some s \<and> 0 \<le> s \<and> s \<le> 1"
proof -
  have "c div n \<le> 1" using assms by (metis div_le_mono div_self not_one_le_zero le_zero_eq)
  then have d: "real (c div n) \<le> 1" by simp
  have m: "0 \<le> min (0.5 * real k / real c) 1" "min (0.5 * real k / real c) 1 \<le> 1"
    by simp_all
  have "0 \<le> 0.5 * real (c div n) + 0.5 * min (0.5 * real k / real c) 1"
    using m by simp
  moreover have "0.5 * real (c div n) + 0.5 * min (0.5 * real k / real c) 1 \<le> 1"
    using d m(2) by linarith
  ultimately show ?thesis using assms
    by (simp add: get_score_def TERRITORY_WEIGHT_def OUTER_WEIGHT_def)
qed

lemma double_to_int_round_int: "double_to_int (round_int k) = k"
  by (simp add: double_to_int_def round_int_def std_round_def) linarith

lemma double_to_int_range:
  assumes "0 \<le> s" "s \<le> 1" "0 \<le> m"
  shows "0 \<le> double_to_int (s * of_int m) \<and> double_to_int (s * of_int m) \<le> m"
proof -
  have "0 \<le> s * of_int m" using assms by simp
  moreover have "s * of_int m \<le> of_int m"
    using assms by (simp add: mult_left_le_one_le)
  ultimately show ?thesis
    by (simp add: double_to_int_def floor_le_iff le_floor_iff) 
qed

lemma calculate_bonus_range:
  fixes b :: "'a::len Bonus"
  assumes "children b \<noteq> []" "card (set (children b)) \<le> n"
      and "0 \<le> max_armies" "min_armies \<le> max_armies"
  shows "\<exists>b'. calculate_bonus n (build_graph es) min_armies max_armies b = Some b'
            \<and> children b' = children b
            \<and> min_armies \<le> armies b' \<and> armies b' \<le> max_armies"
proof -
  have "1 \<le> card (set (children b))"
    using assms(1) by (simp add: Suc_le_eq card_gt_0_iff)
  from get_score_range [OF this assms(2)] obtain s where
    s: "bonus_score n (build_graph es) b = Some s" "0 \<le> s" "s \<le> 1"
    unfolding bonus_score_build_graph by blast
  from double_to_int_range [OF s(2,3) assms(3)]
  show ?thesis using s(1) assms(4)
    by (simp add: calculate_bonus_def double_to_int_round_int)
qed

lemma calculate_loop_range:
  fixes bs :: "'a::len Bonus list"
  assumes "\<forall>b\<in>set bs. children b \<noteq> [] \<and> card (set (children b)) \<le> n"
      and "0 \<le> max_armies" "min_armies \<le> max_armies"
  shows "\<exists>bs'. calculate_loop n (build_graph es) min_armies max_armies bs = Some bs'
            \<and> list_all2 (\<lambda>b b'. children b' = children b
                 \<and> min_armies \<le> armies b' \<and> armies b' \<le> max_armies) bs bs'"
  using assms(1)
proof (induction bs)
  case Nil
  then show ?case by simp
next
  case (Cons b bs)
  then have "children b \<noteq> []" "card (set (children b)) \<le> n" by simp_all
  from calculate_bonus_range [OF this assms(2,3), of es] obtain b' where
    b: "calculate_bonus n (build_graph es) min_armies max_armies b = Some b'"
       "children b' = children b" "min_armies \<le> armies b'" "armies b' \<le> max_armies"
    by blast
  from Cons obtain bs' where
    "calculate_loop n (build_graph es) min_armies max_armies bs = Some bs'"
    "list_all2 (\<lambda>b b'. children b' = children b
                 \<and> min_armies \<le> armies b' \<and> armies b' \<le> max_armies) bs bs'"
    by auto
  with b show ?case by simp
qed

lemma example_collect:
  "collect_neighbors example_graph [0, 1] ([], []) = Some ([0, 1], [0, 1, 2, 4])"
  unfolding example_graph_def by code_simp

lemma example_score: "bonus_score 5 example_graph group_A = Some (1 / 4)"
proof -
  have "bonus_score 5 example_graph group_A = get_score 5 2 2"
    by (simp add: bonus_score_def group_A_def example_collect eval_nat_numeral
        del: collect_neighbors.simps)
  then show ?thesis
    by (simp add: get_score_def TERRITORY_WEIGHT_def OUTER_WEIGHT_def)
qed

lemma example_armies:
  "calculate_bonus 5 example_graph 1 10 group_A = Some \<lparr>children = [0, 1], armies = 2\<rparr>"
proof -
  have "double_to_int (1 / 4 * of_int 10) = 2"
    by (simp add: double_to_int_def)
  then show ?thesis
    unfolding calculate_bonus_def example_score
    by (simp add: double_to_int_round_int group_A_def)
qed

lemma calculate_armies_range:
  fixes c :: "('a::len, 't) ArmyCalculator"
  assumes "m_neighbors c = build_graph es"
      and "\<forall>b\<in>set (m_bonuses c).
             children b \<noteq> [] \<and> card (set (children b)) \<le> length (m_territories c)"
      and "0 \<le> max_armies" "min_armies \<le> max_armies"
  shows "\<exists>c'. calculate_armies min_armies max_armies c = Some c'
            \<and> list_all2 (\<lambda>b b'. children b' = children b
                 \<and> min_armies \<le> armies b' \<and> armies b' \<le> max_armies)
                 (m_bonuses c) (m_bonuses c')"
  using calculate_loop_range [OF assms(2,3,4), of es] assms(1)
  by (auto simp: calculate_armies_def)

text \<open>
  The value assigned is the truncation of \<open>score * max_armies\<close>, raised to
  \<open>min_armies\<close>: the rounding acts on a value that is already an integer.
\<close>

lemma calculate_bonus_truncates:
  assumes "calculate_bonus n g min_armies max_armies b = Some b'"
  shows "\<exists>score. bonus_score n g b = Some score
           \<and> armies b' = max (double_to_int (score * of_int max_armies)) min_armies"
  using assms
  by (auto simp: calculate_bonus_def double_to_int_round_int split: option.splits)

subsection \<open>Claims about the balance calculator\<close>

text \<open>
  Claim C1. The specification's score is
  \<open>0.5 * (|children| / total_vertex_count) + 0.5 * min (0.5 * |outer_adjacents| / |children|) 1\<close>
  over the reals, which is \<open>0.45\<close> in the end-to-end scenario, with army value 5. The
  code computes the outer adjacents as specified (\<open>bonus_score_build_graph\<close>), but it
  divides \<^verbatim>\<open>territories / m_territories.size()\<close> in \<^verbatim>\<open>size_t\<close> arithmetic, so the
  first summand is 0 unless the group holds every territory. In the scenario the
  score is \<open>0.25\<close>; \<open>0.25 * 10 = 2.5\<close> is converted to the \<^verbatim>\<open>int\<close> 2 for
  \<^verbatim>\<open>std::round<int>\<close>, and the army value is 2. Rounding \<open>2.5\<close> itself, half away
  from zero, would give 3.
\<close>

theorem example_score_integer_division:
  "bonus_score 5 example_graph group_A = Some (1 / 4)
   \<and> spec_score 5 2 2 = 9 / 20
   \<and> calculate_bonus 5 example_graph 1 10 group_A = Some \<lparr>children = [0, 1], armies = 2\<rparr>
   \<and> max (double_to_int (std_round (1 / 4 * 10))) 1 = 3"
  by (simp add: example_score example_armies spec_score_def std_round_def double_to_int_def)

text \<open>
  Claim C6. The army value of a group is to be
  \<open>max (round (score * max_armies)) min_armies\<close>, rounding halfway cases away from
  zero, and to lie in \<open>[min_armies, max_armies]\<close>. The code writes
  \<^verbatim>\<open>std::round<int>(score * max_armies)\<close>: the product is converted to \<^verbatim>\<open>int\<close> before
  it is rounded, so it is truncated (\<open>calculate_bonus_truncates\<close>). In the
  end-to-end scenario, with the bounds 1 and 10, \<^verbatim>\<open>calculate_armies\<close> assigns 2 to group
  \<open>A\<close>, whose score is \<open>0.25\<close>: the formula gives 3 for this score, and 5 for the
  score \<open>0.45\<close> of the specification. The value 2 lies within the bounds.
\<close>

theorem army_value_truncated:
  "calculate_armies 1 10 example_calculator
     = Some (example_calculator\<lparr>m_bonuses := [group_A\<lparr>armies := 2\<rparr>]\<rparr>)
   \<and> bonus_score (length (m_territories example_calculator))
        (m_neighbors example_calculator) group_A = Some (1 / 4)
   \<and> max (double_to_int (std_round (1 / 4 * of_int 10))) 1 = 3
   \<and> max (double_to_int (std_round (spec_score 5 2 2 * of_int 10))) 1 = 5"
proof -
  have n: "length (m_territories example_calculator) = 5"
    and g: "m_neighbors example_calculator = example_graph"
    and bs: "m_bonuses example_calculator = [group_A]"
    by (simp_all add: example_calculator_def)
  have "calculate_armies 1 10 example_calculator
      = Some (example_calculator\<lparr>m_bonuses := [group_A\<lparr>armies := 2\<rparr>]\<rparr>)"
    unfolding calculate_armies_def n g bs
    by (simp add: example_armies [unfolded group_A_def] group_A_def)
  moreover have "max (double_to_int (std_round (1 / 4 * of_int 10))) 1 = 3"
    by (simp add: std_round_def double_to_int_def)
  moreover have "max (double_to_int (std_round (spec_score 5 2 2 * of_int 10))) 1 = 5"
    by (simp add: spec_score_def std_round_def double_to_int_def)
  ultimately show ?thesis
    unfolding n g by (simp add: example_score)
qed

section \<open>Sweep-line validator: properties\<close>

subsection \<open>The sweep only tests segments of the input\<close>




lemma intersect_no_shared_endpoint:
  "intersect s1 s2 \<Longrightarrow>
     left s1 \<noteq> left s2 \<and> right s1 \<noteq> right s2 \<and> left s1 \<noteq> right s2 \<and> right s1 \<noteq> left s2"
  by (auto simp: intersect_def split: if_splits)

lemma tree_insert_set: "set (fst (tree_insert s ts)) \<subseteq> insert s (set ts)"
  by (induction ts) auto

lemma tree_insert_pos: "snd (tree_insert s ts) < length (fst (tree_insert s ts))"
  by (induction ts) auto

lemma tree_erase_set: "set (tree_erase s ts) \<subseteq> set ts"
  by (induction ts) auto

lemma tree_find_le: "tree_find s ts \<le> length ts"
  by (induction ts) auto

lemma sweep_step_tree:
  assumes "set (m_tree sl) \<subseteq> converted segments"
      and "sweep_step segments e sl = Inr (Inr sl')"
  shows "set (m_tree sl') \<subseteq> converted segments"
proof (cases "ev_type e")
  case LEFT
  with assms(2) have lt: "ev_edge e < length segments"
    and sl': "sl' = fst (sl_insert (ev_edge e) (segments ! ev_edge e) sl)"
    by (auto simp: sweep_step_def Let_def split: if_splits)
  have "convert (ev_edge e) (segments ! ev_edge e) \<in> converted segments"
    using lt by (auto simp: converted_def)
  then show ?thesis
    using assms(1) tree_insert_set [of "convert (ev_edge e) (segments ! ev_edge e)" "m_tree sl"]
    by (auto simp: sl' sl_insert_def Let_def)
next
  case RIGHT
  with assms(2) obtain s where "m_tree sl' = tree_erase s (m_tree sl)"
    by (auto simp: sweep_step_def Let_def sl_erase_def split: if_splits sum.splits)
  then show ?thesis
    using assms(1) tree_erase_set [of s "m_tree sl"] by auto
qed

lemma sweep_step_true:
  assumes "set (m_tree sl) \<subseteq> converted segments"
      and "sweep_step segments e sl = Inr (Inl b)"
  shows "b \<and> (\<exists>s1\<in>converted segments. \<exists>s2\<in>converted segments. intersect s1 s2)"
proof (cases "ev_type e")
  case LEFT
  let ?r = "sl_insert (ev_edge e) (segments ! ev_edge e) sl"
  let ?tree = "m_tree (fst ?r)" and ?it = "snd ?r"
  from LEFT assms(2) have lt: "ev_edge e < length segments"
    by (auto simp: sweep_step_def Let_def split: if_splits)
  have "convert (ev_edge e) (segments ! ev_edge e) \<in> converted segments"
    using lt by (auto simp: converted_def)
  then have sub: "set ?tree \<subseteq> converted segments"
    using assms(1) tree_insert_set [of "convert (ev_edge e) (segments ! ev_edge e)" "m_tree sl"]
    by (auto simp: sl_insert_def Let_def)
  have pos: "?it < length ?tree"
    using tree_insert_pos [of "convert (ev_edge e) (segments ! ev_edge e)" "m_tree sl"]
    by (simp add: sl_insert_def Let_def)
  from LEFT assms(2) lt have
    "b \<and> ((?it \<noteq> 0 \<and> intersect (?tree ! ?it) (?tree ! (?it - 1)))
        \<or> (Suc ?it \<noteq> length ?tree \<and> intersect (?tree ! ?it) (?tree ! Suc ?it)))"
    by (auto simp: sweep_step_def Let_def split: if_splits)
  then consider (above) "b" "intersect (?tree ! ?it) (?tree ! (?it - 1))"
    | (below) "b" "Suc ?it \<noteq> length ?tree" "intersect (?tree ! ?it) (?tree ! Suc ?it)"
    by blast
  then show ?thesis
  proof cases
    case above
    have "?tree ! ?it \<in> set ?tree" "?tree ! (?it - 1) \<in> set ?tree"
      using pos by (simp_all add: less_imp_diff_less)
    with above sub show ?thesis by blast
  next
    case below
    have "?tree ! ?it \<in> set ?tree" "?tree ! Suc ?it \<in> set ?tree"
      using pos below(2) by simp_all
    with below sub show ?thesis by blast
  qed
next
  case RIGHT
  with assms(2) obtain it_s where
    f: "sl_find (ev_edge e) sl = Inr it_s"
    by (auto simp: sweep_step_def split: sum.splits)
  with RIGHT assms(2) have c: "b" "it_s \<noteq> 0" "it_s \<noteq> length (m_tree sl)"
    "Suc it_s \<noteq> length (m_tree sl)"
    "intersect (m_tree sl ! (it_s - 1)) (m_tree sl ! Suc it_s)"
    by (auto simp: sweep_step_def Let_def split: if_splits sum.splits)
  from f have "it_s \<le> length (m_tree sl)"
    using tree_find_le by (auto simp: sl_find_def split: sum.splits)
  with c have "it_s - 1 < length (m_tree sl)" "Suc it_s < length (m_tree sl)" by auto
  then have "m_tree sl ! (it_s - 1) \<in> set (m_tree sl)" "m_tree sl ! Suc it_s \<in> set (m_tree sl)"
    by simp_all
  with c assms(1) show ?thesis by blast
qed

lemma sweep_loop_true:
  assumes "set (m_tree sl) \<subseteq> converted segments"
      and "sweep_loop segments events sl = Inr True"
  shows "\<exists>s1\<in>converted segments. \<exists>s2\<in>converted segments. intersect s1 s2"
  using assms
proof (induction events arbitrary: sl)
  case Nil
  then show ?case by simp
next
  case (Cons e events)
  show ?case
  proof (cases "sweep_step segments e sl")
    case (Inl err)
    with Cons.prems show ?thesis by simp
  next
    case (Inr r)
    show ?thesis
    proof (cases r)
      case (Inl b)
      with Inr Cons.prems(1) show ?thesis using sweep_step_true by blast
    next
      case (Inr sl')
      with \<open>sweep_step segments e sl = Inr r\<close> Cons.prems
      have "set (m_tree sl') \<subseteq> converted segments" "sweep_loop segments events sl' = Inr True"
        using sweep_step_tree by auto
      then show ?thesis by (rule Cons.IH)
    qed
  qed
qed

lemma bowtie_true: "shamos_hoey bowtie = Inr True"
  by code_simp

lemma triangle_false: "shamos_hoey triangle = Inr False"
  by code_simp

lemma side_as_called:
  "(px s1 - px p) * (py s2 - py p) - (px s2 - px p) * (py s1 - py p) = side s2 p s1"
  by (simp add: side_def algebra_simps)

lemma intersect_by_distance:
  assumes "left s1 \<noteq> left s2" "right s1 \<noteq> right s2" "left s1 \<noteq> right s2"
    "right s1 \<noteq> left s2"
  shows "intersect s1 s2 \<longleftrightarrow>
     distance (left s1) (right s1) (left s2) * distance (left s1) (right s1) (right s2) \<le> 0
     \<and> distance (left s2) (right s2) (left s1) * distance (left s2) (right s2) (right s1) \<le> 0"
  using assms by (auto simp: intersect_def Let_def)

subsection \<open>Claims about the intersection test\<close>

text \<open>
  Claim C2. For normalised segments without a common endpoint, \<^verbatim>\<open>intersect\<close> should
  return true iff the endpoints of each segment lie on opposite or touching sides of
  the other segment's line, the side being the sign of the cross product of \<open>a - p\<close>
  and \<open>b - p\<close>. The test has that shape (\<open>intersect_by_distance\<close>), but the helper
  \<^verbatim>\<open>distance\<close> does not compute the cross product: its last factor is
  \<^verbatim>\<open>s1.x() - p.y()\<close> where the cross product has \<^verbatim>\<open>s1.y() - p.y()\<close>
  (\<open>side_as_called\<close>). The segments from \<open>(0, 0)\<close> to \<open>(4, - 4)\<close> and from
  \<open>(1, - 3)\<close> to \<open>(3, - 1)\<close> are normalised, share no endpoint and lie on opposite
  sides of each other, yet \<^verbatim>\<open>intersect\<close> returns false.
\<close>

theorem intersect_misses_crossing:
  "compare_lt (left crossing_s1) (right crossing_s1)
   \<and> compare_lt (left crossing_s2) (right crossing_s2)
   \<and> left crossing_s1 \<noteq> left crossing_s2 \<and> right crossing_s1 \<noteq> right crossing_s2
   \<and> left crossing_s1 \<noteq> right crossing_s2 \<and> right crossing_s1 \<noteq> left crossing_s2
   \<and> opposite_sides crossing_s1 crossing_s2
   \<and> \<not> intersect crossing_s1 crossing_s2"
  by (simp add: crossing_s1_def crossing_s2_def compare_lt_def opposite_sides_def side_def
      intersect_def distance_def)

text \<open>
  Claim C7. Two active segments that share an endpoint, in any of the four
  combinations, never intersect; and whenever \<^verbatim>\<open>shamos_hoey\<close> returns true, the
  crossing was found between two segments of the input that share no endpoint.
\<close>

theorem shared_endpoint_no_crossing:
  "(left s1 = left s2 \<or> right s1 = right s2 \<or> left s1 = right s2 \<or> right s1 = left s2
      \<longrightarrow> \<not> intersect s1 s2)
   \<and> (shamos_hoey segments = Inr True \<longrightarrow>
        (\<exists>i j. i < length segments \<and> j < length segments
           \<and> intersect (convert i (segments ! i)) (convert j (segments ! j))
           \<and> left (convert i (segments ! i)) \<noteq> left (convert j (segments ! j))
           \<and> right (convert i (segments ! i)) \<noteq> right (convert j (segments ! j))
           \<and> left (convert i (segments ! i)) \<noteq> right (convert j (segments ! j))
           \<and> right (convert i (segments ! i)) \<noteq> left (convert j (segments ! j))))"
proof (intro conjI impI)
  assume "left s1 = left s2 \<or> right s1 = right s2 \<or> left s1 = right s2 \<or> right s1 = left s2"
  then show "\<not> intersect s1 s2" by (simp add: intersect_def)
next
  assume "shamos_hoey segments = Inr True"
  then have "\<exists>s1\<in>converted segments. \<exists>s2\<in>converted segments. intersect s1 s2"
    unfolding shamos_hoey_def
    by (intro sweep_loop_true [where sl = empty_sweep_line]) (simp_all add: empty_sweep_line_def)
  then obtain i j where ij: "i < length segments" "j < length segments"
      "intersect (convert i (segments ! i)) (convert j (segments ! j))"
    by (auto simp: converted_def)
  from intersect_no_shared_endpoint [OF ij(3)] ij
  show "\<exists>i j. i < length segments \<and> j < length segments
           \<and> intersect (convert i (segments ! i)) (convert j (segments ! j))
           \<and> left (convert i (segments ! i)) \<noteq> left (convert j (segments ! j))
           \<and> right (convert i (segments ! i)) \<noteq> right (convert j (segments ! j))
           \<and> left (convert i (segments ! i)) \<noteq> right (convert j (segments ! j))
           \<and> right (convert i (segments ! i)) \<noteq> left (convert j (segments ! j))"
    by blast
qed

theorem shared_endpoint_no_crossing_witness:
  "\<not> intersect \<lparr>edge = 0, left = (0, 0), right = (4, 0)\<rparr> \<lparr>edge = 1, left = (2, 3), right = (4, 0)\<rparr>
   \<and> (\<exists>i j. i < length bowtie \<and> j < length bowtie
         \<and> intersect (convert i (bowtie ! i)) (convert j (bowtie ! j))
         \<and> left (convert i (bowtie ! i)) \<noteq> left (convert j (bowtie ! j))
         \<and> right (convert i (bowtie ! i)) \<noteq> right (convert j (bowtie ! j))
         \<and> left (convert i (bowtie ! i)) \<noteq> right (convert j (bowtie ! j))
         \<and> right (convert i (bowtie ! i)) \<noteq> left (convert j (bowtie ! j)))"
  using shared_endpoint_no_crossing [of "\<lparr>edge = 0, left = (0, 0), right = (4, 0)\<rparr>"
      "\<lparr>edge = 1, left = (2, 3), right = (4, 0)\<rparr>" bowtie] bowtie_true
  by simp

section \<open>Label engine: properties\<close>

subsection \<open>The search loop: termination and the effect of the precision\<close>






















subsection \<open>The covering loops and the envelope\<close>

lemma extend_ordered:
  assumes "px (rect_min r) \<le> px (rect_max r)" "py (rect_min r) \<le> py (rect_max r)"
  shows "px (rect_min (extend_rect p r)) \<le> px (rect_max (extend_rect p r))
       \<and> py (rect_min (extend_rect p r)) \<le> py (rect_max (extend_rect p r))"
  using assms by (simp add: extend_rect_def min_def max_def)

lemma fold_extend_ordered:
  assumes "px (rect_min r) \<le> px (rect_max r)" "py (rect_min r) \<le> py (rect_max r)"
  shows "px (rect_min (fold extend_rect ps r)) \<le> px (rect_max (fold extend_rect ps r))
       \<and> py (rect_min (fold extend_rect ps r)) \<le> py (rect_max (fold extend_rect ps r))"
  using assms
proof (induction ps arbitrary: r)
  case Nil
  then show ?case by simp
next
  case (Cons p ps)
  from extend_ordered [OF Cons.prems, of p] show ?case
    by (simp add: Cons.IH)
qed

lemma envelope_ordered:
  assumes "envelope polygon = Some r"
  shows "0 \<le> width r \<and> 0 \<le> height r"
proof (cases "outer polygon")
  case Nil
  with assms show ?thesis by (simp add: envelope_def)
next
  case (Cons p ps)
  with assms have r: "r = fold extend_rect ps \<lparr>rect_min = p, rect_max = p\<rparr>"
    by (simp add: envelope_def)
  show ?thesis
    unfolding r width_def height_def
    using fold_extend_ordered [of "\<lparr>rect_min = p, rect_max = p\<rparr>" ps] by simp
qed









subsection \<open>Rounded additions in the covering loops\<close>







lemma flat_envelope:
  "envelope flat_polygon = Some \<lparr>rect_min = (0, 0), rect_max = (0, 2)\<rparr>"
  by (simp add: flat_polygon_def envelope_def extend_rect_def)


subsection \<open>Claims about the label engine\<close>

text \<open>
  Claim C9. If the bounding rectangle of the polygon has a zero dimension, \<^verbatim>\<open>polylabel\<close>
  returns the minimum corner of the rectangle with distance 0. The result does not
  depend on the search loop: it holds for every precision, also for one with which the
  loop would not end.
\<close>

theorem polylabel_degenerate:
  assumes "envelope polygon = Some polygon_envelope"
    and "min (width polygon_envelope) (height polygon_envelope) = 0"
  shows "polylabel dtp polygon precision = Some (rect_min polygon_envelope, 0)"
  using assms by (simp add: polylabel_def)

theorem polylabel_degenerate_witness:
  "polylabel (\<lambda>p polygon. 0) flat_polygon 1 = Some ((0, 0), 0)"
  using polylabel_degenerate [OF flat_envelope, of "\<lambda>p polygon. 0" 1]
  by (simp add: width_def height_def)






end
